theory Spec2Isabelle
  imports Complex_Main
begin

section \<open>The scalar node and the object store\<close>

text \<open>
  The engine of \<^verbatim>\<open>micrograd/engine.py\<close> builds a graph of \<^verbatim>\<open>Value\<close> objects
  that refer to each other and are mutated in place (\<^verbatim>\<open>grad\<close>). The objects live in
  an explicit store: a list of nodes, where the index of a node is its identity and a
  reference to a \<^verbatim>\<open>Value\<close> is such an index. A new object is appended at the end.
\<close>

subsection \<open>Numbers\<close>

text \<open>
  The scalar fields \<^verbatim>\<open>data\<close> and \<^verbatim>\<open>grad\<close> hold Python numbers: floats, and the
  complex numbers that \<^verbatim>\<open>**\<close> makes of a negative base and a fractional exponent.
  An \<^verbatim>\<open>int\<close>, such as the initial \<^verbatim>\<open>grad = 0\<close>, the seed \<^verbatim>\<open>1\<close>, the factor
  \<^verbatim>\<open>-1\<close> of \<^verbatim>\<open>__neg__\<close> or the \<^verbatim>\<open>3\<close> of \<^verbatim>\<open>x * 3\<close>, is taken as the float equal
  to it; Python's arithmetic of \<^verbatim>\<open>int\<close>s differs from that of the floats equal to them
  only beyond the range of the floats, where an \<^verbatim>\<open>int\<close> does not overflow.
  A float is taken as the real it stands for and a complex number as a mathematical complex
  number, so the arithmetic is exact: rounding is not followed, and where \<^verbatim>\<open>+\<close>,
  \<^verbatim>\<open>*\<close> or \<^verbatim>\<open>/\<close> would silently give an infinity or a NaN the exact result is
  taken; a real above the largest float then stands for the float infinity. What is
  followed is every exception that the arithmetic raises: the \<^verbatim>\<open>OverflowError\<close> of
  \<^verbatim>\<open>math.exp\<close> and of \<^verbatim>\<open>**\<close> when the result exceeds the largest float, the
  \<^verbatim>\<open>ZeroDivisionError\<close> of zero to a negative power, the \<^verbatim>\<open>TypeError\<close> of
  \<^verbatim>\<open>math.exp\<close> on a complex number, and the failed \<^verbatim>\<open>assert\<close> of \<^verbatim>\<open>__pow__\<close>.
\<close>

datatype error = AssertionError | ZeroDivisionError | OverflowError | TypeError

datatype num = Fl real | Cx complex

fun to_complex :: "num \<Rightarrow> complex" where
  "to_complex (Fl x) = complex_of_real x"
| "to_complex (Cx z) = z"

text \<open>
  \<^verbatim>\<open>+\<close> and \<^verbatim>\<open>*\<close>: two floats give a float; with a complex operand the float is
  converted and the result is complex. The literals \<^verbatim>\<open>0\<close>, \<^verbatim>\<open>0.0\<close>, \<^verbatim>\<open>1\<close> and
  \<^verbatim>\<open>1.0\<close> are the floats 0 and 1.
\<close>

instantiation num :: comm_monoid_add
begin

definition zero_num :: num where
  "zero_num = Fl 0"

definition plus_num :: "num \<Rightarrow> num \<Rightarrow> num" where
  "plus_num x y =
     (case (x, y) of
        (Fl a, Fl b) \<Rightarrow> Fl (a + b)
      | _ \<Rightarrow> Cx (to_complex x + to_complex y))"

instance
proof
  fix a b c :: num
  show "a + b + c = a + (b + c)"
    by (cases a; cases b; cases c) (simp_all add: plus_num_def)
  show "a + b = b + a"
    by (cases a; cases b) (simp_all add: plus_num_def)
  show "0 + a = a"
    by (cases a) (simp_all add: plus_num_def zero_num_def)
qed

end

instantiation num :: comm_monoid_mult
begin

definition one_num :: num where
  "one_num = Fl 1"

definition times_num :: "num \<Rightarrow> num \<Rightarrow> num" where
  "times_num x y =
     (case (x, y) of
        (Fl a, Fl b) \<Rightarrow> Fl (a * b)
      | _ \<Rightarrow> Cx (to_complex x * to_complex y))"

instance
proof
  fix a b c :: num
  show "a * b * c = a * (b * c)"
    by (cases a; cases b; cases c) (simp_all add: times_num_def)
  show "a * b = b * a"
    by (cases a; cases b) (simp_all add: times_num_def)
  show "1 * a = a"
    by (cases a) (simp_all add: times_num_def one_num_def)
qed

end

text \<open>Unary minus on a number.\<close>

fun negate :: "num \<Rightarrow> num" where
  "negate (Fl x) = Fl (- x)"
| "negate (Cx z) = Cx (- z)"

text \<open>The largest float, \<open>(2 - 2\<^sup>-\<^sup>5\<^sup>2) * 2\<^sup>1\<^sup>0\<^sup>2\<^sup>3\<close>.\<close>

definition float_max :: real where
  "float_max = 2 ^ 1024 - 2 ^ 971"

text \<open>
  \<^verbatim>\<open>math.exp\<close>: a complex argument is refused, and a result above the largest float
  raises. Of the float infinity, which an argument above the largest float stands for,
  \<^verbatim>\<open>math.exp\<close> returns infinity and does not raise.
\<close>

fun math_exp :: "num \<Rightarrow> error + real" where
  "math_exp (Cx z) = Inl TypeError"
| "math_exp (Fl x) =
     (if float_max < x then Inr (exp x)
      else if float_max < exp x then Inl OverflowError
      else Inr (exp x))"

text \<open>
  \<^verbatim>\<open>z ** p\<close> for a complex \<open>z\<close> and a float or integer \<open>p\<close>: anything to the power
  0 is 1; zero to a negative power raises; otherwise the power in polar form, modulus
  \<open>|z|\<^sup>p\<close> and argument \<open>p * Arg z\<close>, which raises when the modulus exceeds the
  largest float.
\<close>

definition complex_pow :: "complex \<Rightarrow> real \<Rightarrow> error + num" where
  "complex_pow z p =
     (if p = 0 then Inr (Cx 1)
      else if z = 0 then (if p < 0 then Inl ZeroDivisionError else Inr (Cx 0))
      else (let len = cmod z powr p
            in if float_max < len then Inl OverflowError
               else Inr (Cx (rcis len (p * Arg z)))))"

text \<open>
  \<^verbatim>\<open>x ** p\<close> for a float \<open>x\<close>: \<^verbatim>\<open>x ** 0\<close> is 1 also for \<^verbatim>\<open>x = 0\<close>; zero to a
  negative power raises; a negative base under a fractional exponent is handed to the
  complex power and gives a complex number; every other result is a float, and raises when
  it exceeds the largest float.
\<close>

definition float_pow :: "real \<Rightarrow> real \<Rightarrow> error + num" where
  "float_pow x p =
     (if p = 0 then Inr (Fl 1)
      else if x = 0 then (if p < 0 then Inl ZeroDivisionError else Inr (Fl 0))
      else if x < 0 \<and> p \<notin> \<int> then complex_pow (complex_of_real x) p
      else (let r = (if p \<in> \<int> then power_int x \<lfloor>p\<rfloor> else x powr p)
            in if float_max < \<bar>r\<bar> then Inl OverflowError else Inr (Fl r)))"

fun pow_num :: "num \<Rightarrow> real \<Rightarrow> error + num" where
  "pow_num (Fl x) p = float_pow x p"
| "pow_num (Cx z) p = complex_pow z p"

subsection \<open>Nodes\<close>

text \<open>
  The right-hand argument of an operation is either a \<^verbatim>\<open>Value\<close> (a reference) or a
  plain number.
\<close>

datatype arg = Num num | Ref nat

text \<open>
  The tag \<^verbatim>\<open>_op\<close>: the strings \<^verbatim>\<open>''\<close>, \<^verbatim>\<open>'+'\<close>, \<^verbatim>\<open>'*'\<close>, \<^verbatim>\<open>'exp'\<close>,
  \<^verbatim>\<open>'tanh'\<close>, and \<^verbatim>\<open>f'**{other}'\<close>, which carries the exponent.
\<close>

datatype optag = OpNone | OpAdd | OpMul | OpPow real | OpExp | OpTanh

text \<open>
  The closure \<^verbatim>\<open>_backward\<close>, by the operation that bound it, with the variables it
  captured: the references \<^verbatim>\<open>self\<close>, \<^verbatim>\<open>other\<close> and \<^verbatim>\<open>out\<close>, the exponent of
  \<^verbatim>\<open>__pow__\<close> and the float \<^verbatim>\<open>t\<close> of \<^verbatim>\<open>tanh\<close>. \<open>NoRule\<close> is the initial
  \<^verbatim>\<open>lambda: None\<close>.
\<close>

datatype rule =
    NoRule
  | AddRule nat nat nat
  | MulRule nat nat nat
  | PowRule nat real nat
  | ExpRule nat nat
  | TanhRule nat real nat

text \<open>
  \<open>prev\<close> is the set \<^verbatim>\<open>_prev\<close>, kept as the duplicate-free list of its elements in the
  order in which the set is iterated. Python leaves that order open. The operations below
  list \<^verbatim>\<open>self\<close> before \<^verbatim>\<open>other\<close>; the general statements hold for every store and
  so for every order, and the evaluated examples that depend on the order are given for the
  other orders as well.
\<close>

record node =
  data :: num
  grad :: num
  backward_rule :: rule
  prev :: "nat list"
  op :: optag
  label :: string

type_synonym heap = "node list"

text \<open>
  \<^verbatim>\<open>Value.__init__\<close>: the new object, and the store with it appended. \<open>leaf\<close> is
  the call \<^verbatim>\<open>Value(d)\<close> of a caller.
\<close>

definition Value :: "num \<Rightarrow> nat list \<Rightarrow> optag \<Rightarrow> node" where
  "Value d children tag =
     \<lparr>data = d, grad = 0, backward_rule = NoRule, prev = remdups children,
      op = tag, label = []\<rparr>"

definition alloc :: "heap \<Rightarrow> node \<Rightarrow> heap \<times> nat" where
  "alloc h nd = (h @ [nd], length h)"

definition leaf :: "heap \<Rightarrow> num \<Rightarrow> heap \<times> nat" where
  "leaf h d = alloc h (Value d [] OpNone)"

definition set_backward :: "heap \<Rightarrow> nat \<Rightarrow> rule \<Rightarrow> heap" where
  "set_backward h n r = h[n := (h ! n)\<lparr>backward_rule := r\<rparr>]"

text \<open>
  \<^verbatim>\<open>other if isinstance(other, Value) else Value(other)\<close>: a plain number is wrapped
  into a new leaf.
\<close>

fun coerce :: "heap \<Rightarrow> arg \<Rightarrow> heap \<times> nat" where
  "coerce h (Ref b) = (h, b)"
| "coerce h (Num r) = alloc h (Value r [] OpNone)"

subsection \<open>Forward operations\<close>

definition add_op :: "heap \<Rightarrow> nat \<Rightarrow> arg \<Rightarrow> heap \<times> nat" where
  "add_op h self other =
     (let (h1, other) = coerce h other;
          (h2, out) = alloc h1 (Value (data (h1 ! self) + data (h1 ! other)) [self, other] OpAdd)
      in (set_backward h2 out (AddRule self other out), out))"

definition mul_op :: "heap \<Rightarrow> nat \<Rightarrow> arg \<Rightarrow> heap \<times> nat" where
  "mul_op h self other =
     (let (h1, other) = coerce h other;
          (h2, out) = alloc h1 (Value (data (h1 ! self) * data (h1 ! other)) [self, other] OpMul)
      in (set_backward h2 out (MulRule self other out), out))"

text \<open>\<^verbatim>\<open>__neg__\<close> is \<^verbatim>\<open>self * -1\<close>.\<close>

definition neg_op :: "heap \<Rightarrow> nat \<Rightarrow> heap \<times> nat" where
  "neg_op h self = mul_op h self (Num (Fl (- 1)))"

text \<open>
  \<^verbatim>\<open>__sub__\<close> is \<^verbatim>\<open>self + (-other)\<close>: a \<^verbatim>\<open>Value\<close> is negated by \<^verbatim>\<open>__neg__\<close>, a
  plain number by the arithmetic of numbers.
\<close>

fun sub_op :: "heap \<Rightarrow> nat \<Rightarrow> arg \<Rightarrow> heap \<times> nat" where
  "sub_op h self (Ref b) = (let (h1, nb) = neg_op h b in add_op h1 self (Ref nb))"
| "sub_op h self (Num r) = add_op h self (Num (negate r))"

text \<open>\<^verbatim>\<open>__rmul__\<close> and \<^verbatim>\<open>__radd__\<close>: a plain number on the left.\<close>

definition rmul_op :: "heap \<Rightarrow> nat \<Rightarrow> num \<Rightarrow> heap \<times> nat" where
  "rmul_op h self other = mul_op h self (Num other)"

definition radd_op :: "heap \<Rightarrow> nat \<Rightarrow> num \<Rightarrow> heap \<times> nat" where
  "radd_op h self other = add_op h self (Num other)"

text \<open>
  \<^verbatim>\<open>__pow__\<close>: the \<^verbatim>\<open>assert\<close> comes first and lets an integer or a float pass, then
  the power is computed, and only then is the new object made. The store is returned in
  every case, as the exception leaves it.
\<close>

fun pow_op :: "heap \<Rightarrow> nat \<Rightarrow> arg \<Rightarrow> heap \<times> (error + nat)" where
  "pow_op h self (Ref b) = (h, Inl AssertionError)"
| "pow_op h self (Num (Cx z)) = (h, Inl AssertionError)"
| "pow_op h self (Num (Fl other)) =
     (case pow_num (data (h ! self)) other of
        Inl e \<Rightarrow> (h, Inl e)
      | Inr d \<Rightarrow>
          (let (h1, out) = alloc h (Value d [self] (OpPow other))
           in (set_backward h1 out (PowRule self other out), Inr out)))"

text \<open>
  \<^verbatim>\<open>__truediv__\<close> is \<^verbatim>\<open>self * other**-1\<close>; for a plain number \<^verbatim>\<open>other\<close> the power is
  the arithmetic of numbers.
\<close>

fun truediv_op :: "heap \<Rightarrow> nat \<Rightarrow> arg \<Rightarrow> heap \<times> (error + nat)" where
  "truediv_op h self (Ref b) =
     (case pow_op h b (Num (Fl (- 1))) of
        (h1, Inl e) \<Rightarrow> (h1, Inl e)
      | (h1, Inr q) \<Rightarrow> (let (h2, out) = mul_op h1 self (Ref q) in (h2, Inr out)))"
| "truediv_op h self (Num r) =
     (case pow_num r (- 1) of
        Inl e \<Rightarrow> (h, Inl e)
      | Inr q \<Rightarrow> (let (h1, out) = mul_op h self (Num q) in (h1, Inr out)))"

text \<open>\<^verbatim>\<open>exp\<close>: \<^verbatim>\<open>math.exp\<close> is called before the new object is made.\<close>

definition exp_op :: "heap \<Rightarrow> nat \<Rightarrow> heap \<times> (error + nat)" where
  "exp_op h self =
     (let x = data (h ! self)
      in case math_exp x of
           Inl e \<Rightarrow> (h, Inl e)
         | Inr y \<Rightarrow>
             (let (h1, out) = alloc h (Value (Fl y) [self] OpExp)
              in (set_backward h1 out (ExpRule self out), Inr out)))"

text \<open>
  \<^verbatim>\<open>tanh\<close>: \<^verbatim>\<open>math.exp(2*n)\<close> is evaluated twice, with one result \<open>e\<close> or one
  exception, before the new object is made. The divisor \<open>e + 1\<close> is not 0. For \<open>n\<close>
  above half the largest float the product \<^verbatim>\<open>2*n\<close> is the float infinity:
  \<^verbatim>\<open>math.exp\<close> returns infinity, nothing is raised and the object is made, with a
  \<open>t\<close> that is the quotient of two infinities, NaN, for which there is no number here. The
  statements on \<^verbatim>\<open>tanh\<close> say nothing on the value of that object.
\<close>

definition tanh_op :: "heap \<Rightarrow> nat \<Rightarrow> heap \<times> (error + nat)" where
  "tanh_op h self =
     (let n = data (h ! self)
      in case math_exp (Fl 2 * n) of
           Inl e \<Rightarrow> (h, Inl e)
         | Inr e \<Rightarrow>
             (let t = (e - 1) / (e + 1);
                  (h1, out) = alloc h (Value (Fl t) [self] OpTanh)
              in (set_backward h1 out (TanhRule self t out), Inr out)))"

subsection \<open>The backward rules\<close>

text \<open>\<^verbatim>\<open>x.grad += d\<close>.\<close>

definition add_grad :: "heap \<Rightarrow> nat \<Rightarrow> num \<Rightarrow> heap" where
  "add_grad h n d = h[n := (h ! n)\<lparr>grad := grad (h ! n) + d\<rparr>]"

text \<open>
  Calling a closure: its statements in their order, each reading the store the one before
  left. Only the rule of \<^verbatim>\<open>__pow__\<close> can raise, in its single statement.
\<close>

fun exec_rule :: "rule \<Rightarrow> heap \<Rightarrow> error + heap" where
  "exec_rule NoRule h = Inr h"
| "exec_rule (AddRule self other out) h =
     (let h1 = add_grad h self (1 * grad (h ! out))
      in Inr (add_grad h1 other (1 * grad (h1 ! out))))"
| "exec_rule (MulRule self other out) h =
     (let h1 = add_grad h self (data (h ! other) * grad (h ! out))
      in Inr (add_grad h1 other (data (h1 ! self) * grad (h1 ! out))))"
| "exec_rule (PowRule self other out) h =
     (case pow_num (data (h ! self)) (other - 1) of
        Inl e \<Rightarrow> Inl e
      | Inr q \<Rightarrow> Inr (add_grad h self ((Fl other * q) * grad (h ! out))))"
| "exec_rule (ExpRule self out) h =
     Inr (add_grad h self (data (h ! out) * grad (h ! out)))"
| "exec_rule (TanhRule self t out) h =
     Inr (add_grad h self (Fl (1 - t ^ 2) * grad (h ! out)))"

subsection \<open>Backward propagation\<close>

text \<open>
  The operands of a node; a reference outside the store, which no Python object can
  hold, has none.
\<close>

definition operands :: "heap \<Rightarrow> nat \<Rightarrow> nat list" where
  "operands h v = (if v < length h then prev (h ! v) else [])"

text \<open>
  \<^verbatim>\<open>build_topo\<close>, with the two variables \<^verbatim>\<open>visited\<close> and \<^verbatim>\<open>topo\<close> of the enclosing
  call passed through. \<open>build_children\<close> is the \<^verbatim>\<open>for\<close> loop over \<^verbatim>\<open>v._prev\<close>.
  The \<^verbatim>\<open>topo.append(v)\<close> stands after the \<^verbatim>\<open>if\<close>, not inside it, so it runs on
  every call.
\<close>

function build_topo :: "heap \<Rightarrow> nat \<Rightarrow> nat set \<times> nat list \<Rightarrow> nat set \<times> nat list"
  and build_children :: "heap \<Rightarrow> nat list \<Rightarrow> nat set \<times> nat list \<Rightarrow> nat set \<times> nat list"
where
  "build_topo h v (visited, topo) =
     (let (visited', topo') =
            (if v \<notin> visited
             then build_children h (operands h v) (insert v visited, topo)
             else (visited, topo))
      in (visited', topo' @ [v]))"
| "build_children h [] s = s"
| "build_children h (child # rest) s = build_children h rest (build_topo h child s)"
  by pat_completeness auto

text \<open>
  The recursion ends on every store, cyclic or not: each call that enters the \<^verbatim>\<open>if\<close>
  marks a node not yet visited, and \<open>visited\<close> never shrinks.
\<close>

lemma build_visited_mono:
  "build_topo_build_children_dom (Inl (h, v, s)) \<Longrightarrow> fst s \<subseteq> fst (build_topo h v s)"
  "build_topo_build_children_dom (Inr (h, cs, s)) \<Longrightarrow> fst s \<subseteq> fst (build_children h cs s)"
proof (induct h v s and h cs s rule: build_topo_build_children.pinduct)
  case (1 h v visited topo)
  then show ?case
    by (auto simp: build_topo.psimps split: prod.splits if_splits)
next
  case (2 h s)
  then show ?case by (simp add: build_children.psimps)
next
  case (3 h child rest s)
  then show ?case by (auto simp: build_children.psimps)
qed

lemma unvisited_insert:
  "v \<notin> visited \<Longrightarrow>
     card ({..<length h} - insert v visited) < card ({..<length h} - visited) \<or>
     (card ({..<length h} - insert v visited) = card ({..<length h} - visited) \<and>
      operands h v = [])"
proof (cases "v < length h")
  case True
  assume "v \<notin> visited"
  with True have "card ({..<length h} - insert v visited) < card ({..<length h} - visited)"
    by (intro psubset_card_mono) auto
  then show ?thesis by simp
next
  case False
  then have "{..<length h} - insert v visited = {..<length h} - visited" by auto
  with False show ?thesis by (simp add: operands_def)
qed

lemma unvisited_mono:
  "A \<subseteq> B \<Longrightarrow> card ({..<length (h::heap)} - B) \<le> card ({..<length h} - A)"
  by (intro card_mono) auto

termination build_topo
  apply (relation "inv_image (less_than <*lex*> less_than) (\<lambda>x. case x of
           Inl (h, v, s) \<Rightarrow> (card ({..<length h} - fst s), 1::nat)
         | Inr (h, cs, s) \<Rightarrow> (card ({..<length h} - fst s), 2 * length cs))")
  subgoal by (intro wf_inv_image wf_lex_prod wf_less_than)
  subgoal for h v visited topo using unvisited_insert [of v visited h] by auto
  subgoal by simp
  subgoal for h child rest s
    using unvisited_mono [OF build_visited_mono(1), of h child s h] by auto
  done

text \<open>\<^verbatim>\<open>x.grad = g\<close>.\<close>

definition set_grad :: "heap \<Rightarrow> nat \<Rightarrow> num \<Rightarrow> heap" where
  "set_grad h n g = h[n := (h ! n)\<lparr>grad := g\<rparr>]"

text \<open>
  \<^verbatim>\<open>for node in reversed(topo): node._backward()\<close>. An exception ends the loop and
  leaves the store as it is at that moment.
\<close>

fun run_rules :: "nat list \<Rightarrow> heap \<Rightarrow> heap \<times> error option" where
  "run_rules [] h = (h, None)"
| "run_rules (n # ns) h =
     (case exec_rule (backward_rule (h ! n)) h of
        Inl e \<Rightarrow> (h, Some e)
      | Inr h' \<Rightarrow> run_rules ns h')"

text \<open>
  \<^verbatim>\<open>backward\<close>: the list \<^verbatim>\<open>topo\<close> as \<^verbatim>\<open>build_topo(self)\<close> leaves it, then the
  assignment \<^verbatim>\<open>self.grad = 1\<close>, then the loop. The result is the store when the call
  ends, and the exception if it ended by one.
\<close>

definition topo_order :: "heap \<Rightarrow> nat \<Rightarrow> nat list" where
  "topo_order h self = snd (build_topo h self ({}, []))"

definition backward :: "heap \<Rightarrow> nat \<Rightarrow> heap \<times> error option" where
  "backward h self =
     (let topo = topo_order h self;
          h1 = set_grad h self 1
      in run_rules (rev topo) h1)"

section \<open>The network modules\<close>

text \<open>
  \<^verbatim>\<open>micrograd/nn.py\<close>. A \<^verbatim>\<open>Neuron\<close> holds the references \<^verbatim>\<open>w\<close> and \<^verbatim>\<open>b\<close>, a
  \<^verbatim>\<open>Layer\<close> its \<^verbatim>\<open>neurons\<close>, an \<^verbatim>\<open>MLP\<close> its \<^verbatim>\<open>layers\<close>.
\<close>

record neuron =
  neuron_w :: "nat list"
  neuron_b :: nat

record layer =
  neurons :: "neuron list"

record mlp =
  layers :: "layer list"

text \<open>
  \<^verbatim>\<open>sum((wi*xi for wi, xi in zip(self.w, x)), self.b)\<close>: the generator makes each
  product when the sum asks for it, and the sum adds it to what it has so far, starting
  from \<^verbatim>\<open>self.b\<close>.
\<close>

fun sum_products :: "heap \<Rightarrow> (nat \<times> arg) list \<Rightarrow> nat \<Rightarrow> heap \<times> nat" where
  "sum_products h [] acc = (h, acc)"
| "sum_products h ((wi, xi) # rest) acc =
     (let (h1, p) = mul_op h wi xi;
          (h2, acc') = add_op h1 acc (Ref p)
      in sum_products h2 rest acc')"

text \<open>
  \<^verbatim>\<open>Neuron.__call__\<close>. When \<^verbatim>\<open>tanh\<close> raises, the products and sums made before are
  in the store.
\<close>

definition neuron_call :: "heap \<Rightarrow> neuron \<Rightarrow> arg list \<Rightarrow> heap \<times> (error + nat)" where
  "neuron_call h n x =
     (let (h1, act) = sum_products h (zip (neuron_w n) x) (neuron_b n)
      in tanh_op h1 act)"

definition neuron_parameters :: "neuron \<Rightarrow> nat list" where
  "neuron_parameters n = neuron_w n @ [neuron_b n]"




text \<open>The loop of \<^verbatim>\<open>Layer.parameters\<close>, with its variable \<^verbatim>\<open>params\<close>.\<close>

fun extend_params :: "neuron list \<Rightarrow> nat list \<Rightarrow> nat list" where
  "extend_params [] params = params"
| "extend_params (n # ns) params = extend_params ns (params @ neuron_parameters n)"

definition layer_parameters :: "layer \<Rightarrow> nat list" where
  "layer_parameters l = extend_params (neurons l) []"

definition mlp_parameters :: "mlp \<Rightarrow> nat list" where
  "mlp_parameters m = concat (map layer_parameters (layers m))"

text \<open>
  \<^verbatim>\<open>Module.zero_grad\<close>, on the list that \<^verbatim>\<open>self.parameters()\<close> returns for the
  module at hand.
\<close>

fun zero_grad :: "heap \<Rightarrow> nat list \<Rightarrow> heap" where
  "zero_grad h [] = h"
| "zero_grad h (p # ps) = zero_grad (set_grad h p 0) ps"

definition neuron_zero_grad :: "heap \<Rightarrow> neuron \<Rightarrow> heap" where
  "neuron_zero_grad h n = zero_grad h (neuron_parameters n)"

definition layer_zero_grad :: "heap \<Rightarrow> layer \<Rightarrow> heap" where
  "layer_zero_grad h l = zero_grad h (layer_parameters l)"

definition mlp_zero_grad :: "heap \<Rightarrow> mlp \<Rightarrow> heap" where
  "mlp_zero_grad h m = zero_grad h (mlp_parameters m)"

section \<open>Notions used in the statements\<close>

text \<open>
  The contributions of a closure: for each \<^verbatim>\<open>x.grad += d\<close> it executes, the node
  \<open>x\<close> and the amount \<open>d\<close>, in the order of execution and with every amount read from
  the store as it is at that statement. \<open>run_contribs\<close> collects them over the loop of
  \<^verbatim>\<open>backward\<close>, and \<open>received n\<close> adds up those addressed to the node \<open>n\<close>.
\<close>

fun rule_contribs :: "rule \<Rightarrow> heap \<Rightarrow> (nat \<times> num) list" where
  "rule_contribs NoRule h = []"
| "rule_contribs (AddRule self other out) h =
     (let d = 1 * grad (h ! out); h1 = add_grad h self d
      in [(self, d), (other, 1 * grad (h1 ! out))])"
| "rule_contribs (MulRule self other out) h =
     (let d = data (h ! other) * grad (h ! out); h1 = add_grad h self d
      in [(self, d), (other, data (h1 ! self) * grad (h1 ! out))])"
| "rule_contribs (PowRule self other out) h =
     (case pow_num (data (h ! self)) (other - 1) of
        Inl e \<Rightarrow> []
      | Inr q \<Rightarrow> [(self, (Fl other * q) * grad (h ! out))])"
| "rule_contribs (ExpRule self out) h = [(self, data (h ! out) * grad (h ! out))]"
| "rule_contribs (TanhRule self t out) h = [(self, Fl (1 - t ^ 2) * grad (h ! out))]"

fun run_contribs :: "nat list \<Rightarrow> heap \<Rightarrow> (nat \<times> num) list" where
  "run_contribs [] h = []"
| "run_contribs (n # ns) h =
     (case exec_rule (backward_rule (h ! n)) h of
        Inl e \<Rightarrow> []
      | Inr h' \<Rightarrow> rule_contribs (backward_rule (h ! n)) h @ run_contribs ns h')"

definition received :: "nat \<Rightarrow> (nat \<times> num) list \<Rightarrow> num" where
  "received n cs = sum_list (map snd (filter (\<lambda>c. fst c = n) cs))"

definition backward_contribs :: "heap \<Rightarrow> nat \<Rightarrow> (nat \<times> num) list" where
  "backward_contribs h self = run_contribs (rev (topo_order h self)) (set_grad h self 1)"

text \<open>The store with every gradient blanked: all that is left of a node but \<^verbatim>\<open>grad\<close>.\<close>

definition ungraded :: "heap \<Rightarrow> heap" where
  "ungraded h = map (\<lambda>nd. nd\<lparr>grad := 0\<rparr>) h"

text \<open>
  A forward operation extends the store \<open>h\<close> to \<open>h'\<close> with result \<open>out\<close>: the nodes
  of \<open>h\<close> are all there, each the same record as before, and \<open>out\<close> is one of the
  nodes that have been added.
\<close>

definition extends :: "heap \<Rightarrow> heap \<Rightarrow> nat \<Rightarrow> bool" where
  "extends h h' out = (take (length h) h' = h \<and> length h \<le> out \<and> out < length h')"

text \<open>The value of an argument: of the node referred to, or the number itself.\<close>

fun arg_value :: "heap \<Rightarrow> arg \<Rightarrow> num" where
  "arg_value h (Num r) = r"
| "arg_value h (Ref v) = data (h ! v)"

fun arg_ok :: "heap \<Rightarrow> arg \<Rightarrow> bool" where
  "arg_ok h (Num r) = True"
| "arg_ok h (Ref v) = (v < length h)"

text \<open>
  \<open>grown h h'\<close>: the nodes of \<open>h\<close> are all in \<open>h'\<close>, each the same record.
\<close>

definition grown :: "heap \<Rightarrow> heap \<Rightarrow> bool" where
  "grown h h' = (take (length h) h' = h)"

text \<open>
  What the specification asks of \<^verbatim>\<open>tanh\<close> on a value, over the numbers of the code:
  the hyperbolic tangent of a float \<open>x\<close>, unless \<open>e\<^sup>2\<^sup>x\<close> exceeds the largest float
  while \<open>2x\<close> does not. \<open>finite_double\<close> says that \<open>2x\<close> does not: the value of the
  result is stated under it.
\<close>

fun tanh_spec :: "num \<Rightarrow> error + real" where
  "tanh_spec (Cx z) = Inl TypeError"
| "tanh_spec (Fl x) =
     (if 2 * x \<le> float_max \<and> float_max < exp (2 * x) then Inl OverflowError
      else Inr (tanh x))"



text \<open>
  How a node is built from the engine's operations: an expression over nodes that were
  there before (\<open>ERef\<close>) and plain numbers wrapped into leaves (\<open>ELit\<close>). \<open>built h v e\<close>
  says that the node \<open>v\<close> of the store \<open>h\<close> is the result of \<open>e\<close>: it carries the tag, the
  operands, the closure and the value of the outermost operation of \<open>e\<close>, and its operands
  are built by the subexpressions.
\<close>

datatype expr = ERef nat | ELit num | EAdd expr expr | EMul expr expr | ETanh expr

fun built :: "heap \<Rightarrow> nat \<Rightarrow> expr \<Rightarrow> bool" where
  "built h v (ERef n) = (v = n \<and> n < length h)"
| "built h v (ELit r) =
     (v < length h \<and> data (h ! v) = r \<and> prev (h ! v) = [] \<and> op (h ! v) = OpNone \<and>
      backward_rule (h ! v) = NoRule)"
| "built h v (EAdd e1 e2) =
     (v < length h \<and> op (h ! v) = OpAdd \<and>
      (case backward_rule (h ! v) of
         AddRule a b out \<Rightarrow>
           out = v \<and> set (prev (h ! v)) = {a, b} \<and> distinct (prev (h ! v)) \<and>
           data (h ! v) = data (h ! a) + data (h ! b) \<and> built h a e1 \<and> built h b e2
       | _ \<Rightarrow> False))"
| "built h v (EMul e1 e2) =
     (v < length h \<and> op (h ! v) = OpMul \<and>
      (case backward_rule (h ! v) of
         MulRule a b out \<Rightarrow>
           out = v \<and> set (prev (h ! v)) = {a, b} \<and> distinct (prev (h ! v)) \<and>
           data (h ! v) = data (h ! a) * data (h ! b) \<and> built h a e1 \<and> built h b e2
       | _ \<Rightarrow> False))"
| "built h v (ETanh e) =
     (v < length h \<and> op (h ! v) = OpTanh \<and>
      (case backward_rule (h ! v) of
         TanhRule a t out \<Rightarrow>
           out = v \<and> prev (h ! v) = [a] \<and> data (h ! v) = Fl t \<and>
           tanh_spec (data (h ! a)) = Inr t \<and> built h a e
       | _ \<Rightarrow> False))"

text \<open>
  The expression of a unit: the bias, to which the products of weight and input are added
  one after the other, under \<^verbatim>\<open>tanh\<close>.
\<close>

fun arg_expr :: "arg \<Rightarrow> expr" where
  "arg_expr (Ref v) = ERef v"
| "arg_expr (Num r) = ELit r"





text \<open>The references of a neuron point into the store.\<close>

definition neuron_ok :: "heap \<Rightarrow> neuron \<Rightarrow> bool" where
  "neuron_ok h n = ((\<forall>wi\<in>set (neuron_w n). wi < length h) \<and> neuron_b n < length h)"

text \<open>
  The nodes a closure adds to. In a store built by the operations above they are operands
  of the node that holds the closure (\<open>rules_fit\<close>).
\<close>

fun rule_targets :: "rule \<Rightarrow> nat list" where
  "rule_targets NoRule = []"
| "rule_targets (AddRule self other out) = [self, other]"
| "rule_targets (MulRule self other out) = [self, other]"
| "rule_targets (PowRule self other out) = [self]"
| "rule_targets (ExpRule self out) = [self]"
| "rule_targets (TanhRule self t out) = [self]"

text \<open>
  The operand relation of a store is acyclic when some rank \<open>rk\<close> is greater at every
  node than at each of its operands; in a store built by the operations above the index of
  a node is such a rank. References stay inside the store.
\<close>

definition acyclic_by :: "(nat \<Rightarrow> nat) \<Rightarrow> heap \<Rightarrow> bool" where
  "acyclic_by rk h =
     (\<forall>n<length h. \<forall>c\<in>set (prev (h ! n)). c < length h \<and> rk c < rk n)"

definition rules_fit :: "heap \<Rightarrow> bool" where
  "rules_fit h =
     (\<forall>n<length h. set (rule_targets (backward_rule (h ! n))) \<subseteq> set (prev (h ! n)))"

subsection \<open>Example programs\<close>

text \<open>\<^verbatim>\<open>a = Value(3.0); b = a + a\<close>. The result is the store with \<open>a\<close> and \<open>b\<close>.\<close>

definition fan_out :: "heap \<times> nat \<times> nat" where
  "fan_out =
     (let (h0, a) = leaf [] (Fl 3);
          (h1, b) = add_op h0 a (Ref a)
      in (h1, a, b))"




text \<open>
  \<^verbatim>\<open>a = Value(3.0); b = a + a; d = b * b; c = b + d\<close>: the node \<open>b\<close> is an operand
  of the root \<open>c\<close> and of \<open>d\<close>, itself an operand of \<open>c\<close>. As a function of the value
  \<open>x\<close> of \<open>a\<close>, the value of \<open>c\<close> is \<open>diamond_fun x\<close>.
\<close>

definition diamond :: "heap \<times> nat \<times> nat \<times> nat \<times> nat" where
  "diamond =
     (let (h0, a) = leaf [] (Fl 3);
          (h1, b) = add_op h0 a (Ref a);
          (h2, d) = mul_op h1 b (Ref b);
          (h3, c) = add_op h2 b (Ref d)
      in (h3, a, b, d, c))"

definition diamond_fun :: "real \<Rightarrow> real" where
  "diamond_fun x = (x + x) + (x + x) * (x + x)"

text \<open>
  The same store with the set \<^verbatim>\<open>c._prev\<close> iterated in the other order, \<open>d\<close> before
  \<open>b\<close>. It is the only set of the program with two elements.
\<close>

definition diamond_other_order :: heap where
  "diamond_other_order =
     (case diamond of (h, a, b, d, c) \<Rightarrow> h[c := (h ! c)\<lparr>prev := rev (prev (h ! c))\<rparr>])"

text \<open>
  \<^verbatim>\<open>x = Value(2.0); b = x * 3; d = b * b; c = b + d; r = c + x\<close>: the leaf \<open>x\<close> has
  two consumers, \<open>b\<close> and the root \<open>r\<close>, and its consumer \<open>b\<close> is an operand at two
  depths. The nodes are, in the order of their making, \<open>x\<close>, the leaf of the number 3,
  \<open>b\<close>, \<open>d\<close>, \<open>c\<close> and \<open>r\<close>. As a function of the value of \<open>x\<close>, the value of \<open>r\<close> is
  \<open>shared_fun\<close>.
\<close>

definition shared :: heap where
  "shared =
     (let (h0, x) = leaf [] (Fl 2);
          (h1, b) = mul_op h0 x (Num (Fl 3));
          (h2, d) = mul_op h1 b (Ref b);
          (h3, c) = add_op h2 b (Ref d);
          (h4, r) = add_op h3 c (Ref x)
      in h4)"

definition shared_fun :: "real \<Rightarrow> real" where
  "shared_fun x = (x * 3 + (x * 3) * (x * 3)) + x"

text \<open>
  A store with the set \<^verbatim>\<open>_prev\<close> of some of its nodes iterated in the other order.
\<close>

fun reordered :: "nat list \<Rightarrow> heap \<Rightarrow> heap" where
  "reordered [] h = h"
| "reordered (v # vs) h = reordered vs (h[v := (h ! v)\<lparr>prev := rev (prev (h ! v))\<rparr>])"

text \<open>
  \<^verbatim>\<open>n = Neuron(1); out = n([1.0])\<close>, where the constructor has drawn the weight 0.5
  and the bias -0.5: \<open>unit_store\<close> holds the two parameters, \<open>unit_forward\<close> is the
  store after the call, with what the call returns, the reference \<open>unit_out\<close>.
\<close>

definition unit_neuron :: neuron where
  "unit_neuron = \<lparr>neuron_w = [0], neuron_b = 1\<rparr>"

definition unit_store :: heap where
  "unit_store = fst (leaf (fst (leaf [] (Fl (1 / 2)))) (Fl (- 1 / 2)))"

definition unit_forward :: "heap \<times> (error + nat)" where
  "unit_forward = neuron_call unit_store unit_neuron [Num (Fl 1)]"

definition unit_out :: nat where
  "unit_out = 5"

text \<open>
  The same neuron called on a node of value 2050.0:
  \<^verbatim>\<open>x = Value(2050.0); out = n([x])\<close>, and a layer of this one neuron called on it.
\<close>

definition big_input_store :: heap where
  "big_input_store = fst (leaf unit_store (Fl 2050))"



text \<open>
  A layer of two neurons of one input each, with the parameters 0.5, -0.5 and 0.25, -0.25.
\<close>

definition pair_layer :: layer where
  "pair_layer = \<lparr>neurons = [\<lparr>neuron_w = [0], neuron_b = 1\<rparr>, \<lparr>neuron_w = [2], neuron_b = 3\<rparr>]\<rparr>"

definition pair_store :: heap where
  "pair_store = fst (leaf (fst (leaf unit_store (Fl (1 / 4)))) (Fl (- 1 / 4)))"

text \<open>
  \<^verbatim>\<open>out.backward(); n.zero_grad(); out.backward()\<close> after the program of
  \<open>unit_forward\<close>: the stores after the first pass, after the reset and after the second
  pass.
\<close>

definition unit_first_pass :: heap where
  "unit_first_pass = fst (backward (fst unit_forward) unit_out)"

definition unit_reset :: heap where
  "unit_reset = neuron_zero_grad unit_first_pass unit_neuron"

definition unit_second_pass :: heap where
  "unit_second_pass = fst (backward unit_reset unit_out)"

text \<open>
  \<^verbatim>\<open>n = Neuron(1); r = n.w[0] * n.b\<close> with the same parameters: a root whose operands
  are the parameters themselves.
\<close>

definition param_product :: "heap \<times> nat" where
  "param_product = mul_op unit_store 0 (Ref 1)"

section \<open>Properties\<close>

subsection \<open>Arithmetic of numbers\<close>

lemma plus_num_simps [simp]:
  "Fl a + Fl b = Fl (a + b)"
  "Fl a + Cx z = Cx (complex_of_real a + z)"
  "Cx z + Fl a = Cx (z + complex_of_real a)"
  "Cx z + Cx w = Cx (z + w)"
  by (simp_all add: plus_num_def)

lemma times_num_simps [simp]:
  "Fl a * Fl b = Fl (a * b)"
  "Fl a * Cx z = Cx (complex_of_real a * z)"
  "Cx z * Fl a = Cx (z * complex_of_real a)"
  "Cx z * Cx w = Cx (z * w)"
  by (simp_all add: times_num_def)

lemma float_max_pos: "1 < float_max"
  by (simp add: float_max_def)




subsection \<open>Gradients are accumulated\<close>

lemma received_simps [simp]:
  "received n [] = 0"
  "received n ((m, d) # cs) = (if m = n then d + received n cs else received n cs)"
  "received n (cs @ ds) = received n cs + received n ds"
  by (simp_all add: received_def)

lemma length_add_grad [simp]: "length (add_grad h n d) = length h"
  by (simp add: add_grad_def)

lemma grad_add_grad:
  "m < length h \<Longrightarrow> grad (add_grad h n d ! m) = (if m = n then grad (h ! m) + d else grad (h ! m))"
  by (simp add: add_grad_def nth_list_update)

lemma length_exec_rule: "exec_rule r h = Inr h' \<Longrightarrow> length h' = length h"
  by (cases r) (auto simp: Let_def split: sum.splits)

lemma exec_rule_grad:
  assumes "exec_rule r h = Inr h'" and "n < length h"
  shows "grad (h' ! n) = grad (h ! n) + received n (rule_contribs r h)"
  using assms by (cases r) (auto simp: Let_def grad_add_grad add.assoc split: sum.splits)

lemma length_run_rules [simp]: "length (fst (run_rules ns h)) = length h"
  by (induction ns arbitrary: h) (auto split: sum.splits dest: length_exec_rule)

lemma run_rules_grad:
  "n < length h \<Longrightarrow>
     grad (fst (run_rules ns h) ! n) = grad (h ! n) + received n (run_contribs ns h)"
proof (induction ns arbitrary: h)
  case Nil
  then show ?case by simp
next
  case (Cons m ns)
  show ?case
  proof (cases "exec_rule (backward_rule (h ! m)) h")
    case (Inl e)
    then show ?thesis by simp
  next
    case (Inr h')
    with Cons.prems have "n < length h'" by (simp add: length_exec_rule)
    from Cons.IH [OF this] exec_rule_grad [OF Inr Cons.prems] Inr
    show ?thesis by (simp add: add.assoc)
  qed
qed


subsection \<open>Only gradients change in a backward pass\<close>

lemma ungraded_update_grad:
  "ungraded (h[n := (h ! n)\<lparr>grad := g\<rparr>]) = ungraded h"
proof (rule nth_equalityI)
  show "length (ungraded (h[n := (h ! n)\<lparr>grad := g\<rparr>])) = length (ungraded h)"
    by (simp add: ungraded_def)
next
  fix i
  assume "i < length (ungraded (h[n := (h ! n)\<lparr>grad := g\<rparr>]))"
  then have "i < length h" by (simp add: ungraded_def)
  then show "ungraded (h[n := (h ! n)\<lparr>grad := g\<rparr>]) ! i = ungraded h ! i"
    by (cases "i = n") (simp_all add: ungraded_def)
qed

lemma ungraded_add_grad [simp]: "ungraded (add_grad h n d) = ungraded h"
  by (simp add: add_grad_def ungraded_update_grad)

lemma ungraded_set_grad [simp]: "ungraded (set_grad h n g) = ungraded h"
  by (simp add: set_grad_def ungraded_update_grad)

lemma ungraded_exec_rule: "exec_rule r h = Inr h' \<Longrightarrow> ungraded h' = ungraded h"
  by (cases r) (auto simp: Let_def split: sum.splits)

lemma ungraded_run_rules [simp]: "ungraded (fst (run_rules ns h)) = ungraded h"
  by (induction ns arbitrary: h) (auto split: sum.splits dest: ungraded_exec_rule)

lemma ungraded_zero_grad [simp]: "ungraded (zero_grad h ps) = ungraded h"
  by (induction ps arbitrary: h) simp_all

lemma ungraded_backward [simp]: "ungraded (fst (backward h rt)) = ungraded h"
  by (simp add: backward_def Let_def)

lemma ungraded_fields:
  assumes "ungraded h' = ungraded h"
  shows "length h' = length h" and "map data h' = map data h"
    and "map backward_rule h' = map backward_rule h" and "map prev h' = map prev h"
    and "map op h' = map op h" and "map label h' = map label h"
proof -
  show "length h' = length h"
    using arg_cong [OF assms, of length] by (simp add: ungraded_def)
  have "map f h' = map f h" if "\<And>nd. f (nd\<lparr>grad := 0\<rparr>) = f nd" for f :: "node \<Rightarrow> 'a"
  proof -
    have "map f (ungraded k) = map f k" for k
      by (simp add: ungraded_def that)
    with assms show ?thesis by metis
  qed
  note * = this
  show "map data h' = map data h" by (rule *) simp
  show "map backward_rule h' = map backward_rule h" by (rule *) simp
  show "map prev h' = map prev h" by (rule *) simp
  show "map op h' = map op h" by (rule *) simp
  show "map label h' = map label h" by (rule *) simp
qed

subsection \<open>Forward operations extend the store\<close>

lemma alloc_set_backward:
  "alloc h nd = (h', out) \<Longrightarrow>
     set_backward h' out r = h @ [nd\<lparr>backward_rule := r\<rparr>] \<and> out = length h"
  by (auto simp: alloc_def set_backward_def)

lemma coerce_extends:
  "coerce h x = (h', v) \<Longrightarrow>
     (case x of Ref r \<Rightarrow> h' = h \<and> v = r | Num r \<Rightarrow> h' = h @ [Value r [] OpNone] \<and> v = length h)"
  by (cases x) (auto simp: alloc_def)

lemma add_op_extends:
  "add_op h a x = (h', out) \<Longrightarrow> \<exists>new. h' = h @ new \<and> new \<noteq> [] \<and> out = length h' - 1"
  by (cases x) (auto simp: add_op_def alloc_def set_backward_def Let_def)

lemma mul_op_extends:
  "mul_op h a x = (h', out) \<Longrightarrow> \<exists>new. h' = h @ new \<and> new \<noteq> [] \<and> out = length h' - 1"
  by (cases x) (auto simp: mul_op_def alloc_def set_backward_def Let_def)

lemma exp_op_extends:
  "exp_op h a = (h', r) \<Longrightarrow>
     (case r of Inl e \<Rightarrow> h' = h
      | Inr out \<Rightarrow> \<exists>new. h' = h @ new \<and> new \<noteq> [] \<and> out = length h' - 1)"
  by (auto simp: exp_op_def alloc_def set_backward_def Let_def split: sum.splits)

lemma tanh_op_extends:
  "tanh_op h a = (h', r) \<Longrightarrow>
     (case r of Inl e \<Rightarrow> h' = h
      | Inr out \<Rightarrow> \<exists>new. h' = h @ new \<and> new \<noteq> [] \<and> out = length h' - 1)"
  by (auto simp: tanh_op_def alloc_def set_backward_def Let_def split: sum.splits)

lemma pow_op_extends:
  "pow_op h a x = (h', r) \<Longrightarrow>
     (case r of Inl e \<Rightarrow> h' = h
      | Inr out \<Rightarrow> \<exists>new. h' = h @ new \<and> new \<noteq> [] \<and> out = length h' - 1)"
  by (cases "(h, a, x)" rule: pow_op.cases)
     (auto simp: alloc_def set_backward_def Let_def split: sum.splits)

lemma extendsI:
  "\<exists>new. h' = h @ new \<and> new \<noteq> [] \<and> out = length h' - 1 \<Longrightarrow> extends h h' out"
proof -
  assume "\<exists>new. h' = h @ new \<and> new \<noteq> [] \<and> out = length h' - 1"
  then obtain new where n: "h' = h @ new" "new \<noteq> []" "out = length h' - 1" by blast
  from n(2) have "0 < length new" by simp
  then have "length h \<le> length h + length new - 1" "length h + length new - 1 < length h + length new"
    by arith+
  with n show ?thesis by (simp add: extends_def)
qed

lemma extends_trans: "extends h h1 o1 \<Longrightarrow> extends h1 h2 o2 \<Longrightarrow> extends h h2 o2"
proof -
  assume a: "extends h h1 o1" and b: "extends h1 h2 o2"
  then have l: "length h \<le> length h1" "length h1 \<le> length h2" by (auto simp: extends_def)
  have "take (length h) h2 = take (length h) (take (length h1) h2)"
    using l by (simp add: min_def)
  also have "\<dots> = h" using a b by (simp add: extends_def)
  finally show ?thesis using a b l by (auto simp: extends_def)
qed

lemma extends_nth: "extends h h' out \<Longrightarrow> n < length h \<Longrightarrow> h' ! n = h ! n"
  by (metis extends_def nth_take)

lemma extends_length: "extends h h' out \<Longrightarrow> length h < length h'"
  by (auto simp: extends_def)

lemma add_op_ext: "add_op h a x = (h', out) \<Longrightarrow> extends h h' out"
  by (rule extendsI) (rule add_op_extends)

lemma mul_op_ext: "mul_op h a x = (h', out) \<Longrightarrow> extends h h' out"
  by (rule extendsI) (rule mul_op_extends)

lemma exp_op_ext:
  "exp_op h a = (h', r) \<Longrightarrow> (case r of Inl e \<Rightarrow> h' = h | Inr out \<Rightarrow> extends h h' out)"
  using exp_op_extends [of h a h' r] by (auto split: sum.splits intro: extendsI)

lemma tanh_op_ext:
  "tanh_op h a = (h', r) \<Longrightarrow> (case r of Inl e \<Rightarrow> h' = h | Inr out \<Rightarrow> extends h h' out)"
  using tanh_op_extends [of h a h' r] by (auto split: sum.splits intro: extendsI)

lemma neg_op_ext: "neg_op h a = (h', out) \<Longrightarrow> extends h h' out"
  unfolding neg_op_def by (rule mul_op_ext)

lemma sub_op_ext: "sub_op h a x = (h', out) \<Longrightarrow> extends h h' out"
proof (cases x)
  case (Num r)
  assume "sub_op h a x = (h', out)"
  with Num show ?thesis by (simp add: add_op_ext)
next
  case (Ref b)
  assume s: "sub_op h a x = (h', out)"
  obtain h1 nb where n: "neg_op h b = (h1, nb)" by (cases "neg_op h b")
  with s Ref have "add_op h1 a (Ref nb) = (h', out)" by simp
  with n show ?thesis by (blast intro: extends_trans neg_op_ext add_op_ext)
qed

lemma pow_op_ext:
  "pow_op h a x = (h', r) \<Longrightarrow> (case r of Inl e \<Rightarrow> h' = h | Inr out \<Rightarrow> extends h h' out)"
  using pow_op_extends [of h a x h' r] by (auto split: sum.splits intro: extendsI)

lemma truediv_op_ext:
  "truediv_op h a x = (h', r) \<Longrightarrow> (case r of Inl e \<Rightarrow> h' = h | Inr out \<Rightarrow> extends h h' out)"
proof (cases x)
  case (Num v)
  assume "truediv_op h a x = (h', r)"
  with Num show ?thesis
    by (auto split: sum.splits prod.splits intro: mul_op_ext)
next
  case (Ref b)
  assume t: "truediv_op h a x = (h', r)"
  obtain h1 q where p: "pow_op h b (Num (Fl (- 1))) = (h1, q)" by (cases "pow_op h b (Num (Fl (- 1)))")
  show ?thesis
  proof (cases q)
    case (Inl e)
    with p t Ref pow_op_ext [OF p] show ?thesis by (auto simp del: pow_op.simps)
  next
    case (Inr v)
    with p t Ref pow_op_ext [OF p] show ?thesis
      by (auto simp del: pow_op.simps split: prod.splits
            intro: extends_trans [OF _ mul_op_ext])
  qed
qed

subsection \<open>The root of an acyclic store receives nothing\<close>

lemma build_topo_below:
  "acyclic_by rk h \<Longrightarrow> v < length h \<Longrightarrow>
     \<forall>u\<in>set (snd (build_topo h v s)).
        u \<in> set (snd s) \<or> (u < length h \<and> (u = v \<or> rk u < rk v))"
  "acyclic_by rk h \<Longrightarrow>
     \<forall>m. (\<forall>c\<in>set cs. c < length h \<and> rk c < m) \<longrightarrow>
       (\<forall>u\<in>set (snd (build_children h cs s)).
          u \<in> set (snd s) \<or> (u < length h \<and> rk u < m))"
proof (induction h v s and h cs s rule: build_topo_build_children.induct)
  case (1 h v visited topo)
  show ?case
  proof (cases "v \<in> visited")
    case True
    with "1.prems" show ?thesis by simp
  next
    case False
    have ops: "\<forall>c\<in>set (operands h v). c < length h \<and> rk c < rk v"
      using "1.prems" by (auto simp: acyclic_by_def operands_def)
    from "1.IH" [OF False "1.prems"(1)] ops
    have "\<forall>u\<in>set (snd (build_children h (operands h v) (insert v visited, topo))).
            u \<in> set topo \<or> (u < length h \<and> rk u < rk v)"
      by fastforce
    with False "1.prems" show ?thesis
      by (auto simp: case_prod_unfold Let_def)
  qed
next
  case (2 h s)
  then show ?case by simp
next
  case (3 h child rest s)
  show ?case
  proof (intro allI impI ballI)
    fix m u
    assume m: "\<forall>c\<in>set (child # rest). c < length h \<and> rk c < m"
      and u: "u \<in> set (snd (build_children h (child # rest) s))"
    from m have c: "child < length h" "rk child < m" by simp_all
    from u have "u \<in> set (snd (build_children h rest (build_topo h child s)))" by simp
    with "3.IH"(2) [OF "3.prems"] m
    have "u \<in> set (snd (build_topo h child s)) \<or> (u < length h \<and> rk u < m)"
      by auto
    with "3.IH"(1) [OF "3.prems" c(1)] c(2)
    show "u \<in> set (snd s) \<or> (u < length h \<and> rk u < m)"
      by auto
  qed
qed

lemma topo_order_below:
  assumes "acyclic_by rk h" and "rt < length h" and "u \<in> set (topo_order h rt)"
  shows "u < length h \<and> (u = rt \<or> rk u < rk rt)"
  using build_topo_below(1) [OF assms(1,2), of "({}, [])"] assms(3)
  by (auto simp: topo_order_def)

lemma backward_rule_add_grad [simp]:
  "backward_rule (add_grad h i d ! n) = backward_rule (h ! n)"
proof (cases "i < length h")
  case True
  then show ?thesis by (cases "i = n") (simp_all add: add_grad_def)
next
  case False
  then have "add_grad h i d = h" by (simp add: add_grad_def list_update_beyond)
  then show ?thesis by simp
qed

lemma backward_rule_exec_rule:
  "exec_rule r h = Inr h' \<Longrightarrow> backward_rule (h' ! n) = backward_rule (h ! n)"
  by (cases r) (auto simp: Let_def split: sum.splits)

lemma rule_contribs_targets: "fst ` set (rule_contribs r h) \<subseteq> set (rule_targets r)"
  by (cases r) (auto simp: Let_def split: sum.splits)

lemma run_contribs_targets:
  "t \<in> fst ` set (run_contribs ns h) \<Longrightarrow>
     \<exists>n\<in>set ns. t \<in> set (rule_targets (backward_rule (h ! n)))"
proof (induction ns arbitrary: h)
  case Nil
  then show ?case by simp
next
  case (Cons m ns)
  show ?case
  proof (cases "exec_rule (backward_rule (h ! m)) h")
    case (Inl e)
    with Cons.prems show ?thesis by simp
  next
    case (Inr h')
    with Cons.prems consider
      "t \<in> fst ` set (rule_contribs (backward_rule (h ! m)) h)"
      | "t \<in> fst ` set (run_contribs ns h')"
      by auto
    then show ?thesis
    proof cases
      case 1
      with rule_contribs_targets show ?thesis by fastforce
    next
      case 2
      from Cons.IH [OF this] backward_rule_exec_rule [OF Inr] show ?thesis by auto
    qed
  qed
qed

lemma received_none: "n \<notin> fst ` set cs \<Longrightarrow> received n cs = 0"
  by (induction cs) auto

lemma root_receives_nothing:
  assumes a: "acyclic_by rk h" and f: "rules_fit h" and r: "rt < length h"
  shows "received rt (backward_contribs h rt) = 0"
proof (rule received_none, rule notI)
  assume "rt \<in> fst ` set (backward_contribs h rt)"
  then obtain n where n: "n \<in> set (topo_order h rt)"
    and t: "rt \<in> set (rule_targets (backward_rule (set_grad h rt 1 ! n)))"
    unfolding backward_contribs_def using run_contribs_targets by fastforce
  from topo_order_below [OF a r n] have nl: "n < length h" and nr: "n = rt \<or> rk n < rk rt"
    by simp_all
  have "backward_rule (set_grad h rt 1 ! n) = backward_rule (h ! n)"
    using nl by (cases "n = rt") (simp_all add: set_grad_def)
  with t f nl have "rt \<in> set (prev (h ! n))" by (auto simp: rules_fit_def)
  with a nl have "rk rt < rk n" by (auto simp: acyclic_by_def)
  with nr show False by auto
qed

lemma backward_grad:
  assumes "n < length h"
  shows "grad (fst (backward h rt) ! n) =
           (if n = rt then 1 else grad (h ! n)) + received n (backward_contribs h rt)"
proof -
  have "grad (set_grad h rt 1 ! n) = (if n = rt then 1 else grad (h ! n))"
    using assms by (simp add: set_grad_def)
  with run_rules_grad [of n "set_grad h rt 1" "rev (topo_order h rt)"] assms
  show ?thesis by (simp add: backward_def backward_contribs_def Let_def set_grad_def)
qed

subsection \<open>Values computed by the forward operations\<close>



lemma extends_arg_value:
  "extends h h' out \<Longrightarrow> arg_ok h x \<Longrightarrow> arg_value h' x = arg_value h x \<and> arg_ok h' x"
  by (cases x) (auto simp: extends_nth dest: extends_length)




lemma extends_grown: "extends h h' out \<Longrightarrow> grown h h'"
  by (simp add: extends_def grown_def)

lemma grown_length: "grown h h' \<Longrightarrow> length h \<le> length h'"
proof -
  assume "grown h h'"
  then have "length (take (length h) h') = length h" by (simp add: grown_def)
  then show ?thesis by simp
qed

lemma grown_nth: "grown h h' \<Longrightarrow> n < length h \<Longrightarrow> h' ! n = h ! n"
proof -
  assume g: "grown h h'" and n: "n < length h"
  from n have "take (length h) h' ! n = h' ! n" by simp
  with g show ?thesis by (simp add: grown_def)
qed

lemma grown_trans: "grown h h1 \<Longrightarrow> grown h1 h2 \<Longrightarrow> grown h h2"
proof -
  assume a: "grown h h1" and b: "grown h1 h2"
  have "take (length h) h2 = take (length h) (take (length h1) h2)"
    using grown_length [OF a] by (simp add: min_def)
  with a b show ?thesis by (simp add: grown_def)
qed

lemma grown_extends: "grown h h1 \<Longrightarrow> extends h1 h2 out \<Longrightarrow> extends h h2 out"
proof -
  assume a: "grown h h1" and b: "extends h1 h2 out"
  from b have "grown h1 h2" by (rule extends_grown)
  with a have "grown h h2" by (rule grown_trans)
  moreover from a have "length h \<le> length h1" by (rule grown_length)
  ultimately show ?thesis using b by (simp add: extends_def grown_def)
qed



subsection \<open>Nodes built by the forward operations\<close>

lemma built_range: "built h v e \<Longrightarrow> v < length h"
  by (cases e) simp_all

lemma built_grown: "built h v e \<Longrightarrow> grown h h' \<Longrightarrow> built h' v e"
proof (induction e arbitrary: v)
  case (ERef n)
  then show ?case using grown_length [of h h'] by simp
next
  case (ELit r)
  then show ?case using grown_length [of h h'] grown_nth [of h h' v] by simp
next
  case (EAdd e1 e2)
  from EAdd.prems(1) have v: "v < length h" by (rule built_range)
  from EAdd.prems(1) obtain a b where r: "backward_rule (h ! v) = AddRule a b v"
    and f: "op (h ! v) = OpAdd" "set (prev (h ! v)) = {a, b}" "distinct (prev (h ! v))"
      "data (h ! v) = data (h ! a) + data (h ! b)"
    and s: "built h a e1" "built h b e2"
    by (auto split: rule.splits)
  from s have ab: "a < length h" "b < length h" by (auto dest: built_range)
  have n: "h' ! v = h ! v" "h' ! a = h ! a" "h' ! b = h ! b"
    using v ab grown_nth [OF EAdd.prems(2)] by simp_all
  from EAdd.IH(1) [OF s(1) EAdd.prems(2)] EAdd.IH(2) [OF s(2) EAdd.prems(2)]
    r f n v grown_length [OF EAdd.prems(2)]
  show ?case by simp
next
  case (EMul e1 e2)
  from EMul.prems(1) have v: "v < length h" by (rule built_range)
  from EMul.prems(1) obtain a b where r: "backward_rule (h ! v) = MulRule a b v"
    and f: "op (h ! v) = OpMul" "set (prev (h ! v)) = {a, b}" "distinct (prev (h ! v))"
      "data (h ! v) = data (h ! a) * data (h ! b)"
    and s: "built h a e1" "built h b e2"
    by (auto split: rule.splits)
  from s have ab: "a < length h" "b < length h" by (auto dest: built_range)
  have n: "h' ! v = h ! v" "h' ! a = h ! a" "h' ! b = h ! b"
    using v ab grown_nth [OF EMul.prems(2)] by simp_all
  from EMul.IH(1) [OF s(1) EMul.prems(2)] EMul.IH(2) [OF s(2) EMul.prems(2)]
    r f n v grown_length [OF EMul.prems(2)]
  show ?case by simp
next
  case (ETanh e)
  from ETanh.prems(1) have v: "v < length h" by (rule built_range)
  from ETanh.prems(1) obtain a t where r: "backward_rule (h ! v) = TanhRule a t v"
    and f: "op (h ! v) = OpTanh" "prev (h ! v) = [a]" "data (h ! v) = Fl t"
      "tanh_spec (data (h ! a)) = Inr t"
    and s: "built h a e"
    by (auto split: rule.splits)
  from s have a: "a < length h" by (rule built_range)
  have n: "h' ! v = h ! v" "h' ! a = h ! a"
    using v a grown_nth [OF ETanh.prems(2)] by simp_all
  from ETanh.IH [OF s ETanh.prems(2)] r f n v grown_length [OF ETanh.prems(2)]
  show ?case by simp
qed

lemma arg_expr_built:
  assumes "coerce h x = (h1, b)" and "arg_ok h x"
  shows "built h1 b (arg_expr x)" and "data (h1 ! b) = arg_value h x"
  using assms by (cases x; auto simp: alloc_def Value_def nth_append)+

lemma coerce_grown: "coerce h x = (h1, b) \<Longrightarrow> grown h h1"
  by (cases x) (auto simp: alloc_def grown_def)


lemma add_op_built:
  assumes m: "add_op h a x = (h', p)" and a: "built h a e" and x: "arg_ok h x"
  shows "built h' p (EAdd e (arg_expr x))"
proof -
  obtain h1 b where c: "coerce h x = (h1, b)" by (cases "coerce h x")
  let ?nd = "(Value (data (h1 ! a) + data (h1 ! b)) [a, b] OpAdd)\<lparr>backward_rule := AddRule a b (length h1)\<rparr>"
  from m c have h': "h' = h1 @ [?nd]" and p: "p = length h1"
    by (auto simp: add_op_def alloc_def set_backward_def)
  have g: "grown h1 h'" by (simp add: h' grown_def)
  note b1 = arg_expr_built(1) [OF c x]
  have a1: "built h1 a e" using a coerce_grown [OF c] by (rule built_grown)
  have al: "a < length h1" and bl: "b < length h1"
    using a1 b1 by (auto dest: built_range)
  have "built h' a e" and "built h' b (arg_expr x)"
    using a1 b1 g by (auto intro: built_grown)
  then show ?thesis using al bl
    by (simp add: h' p Value_def nth_append)
qed



subsection \<open>The network modules\<close>













subsection \<open>Resetting gradients and running backward again\<close>

lemma length_zero_grad [simp]: "length (zero_grad h ps) = length h"
  by (induction ps arbitrary: h) (simp_all add: set_grad_def)

lemma zero_grad_other: "k \<notin> set ps \<Longrightarrow> zero_grad h ps ! k = h ! k"
  by (induction ps arbitrary: h) (auto simp: set_grad_def)

lemma zero_grad_param:
  "p \<in> set ps \<Longrightarrow> p < length h \<Longrightarrow> grad (zero_grad h ps ! p) = 0"
proof (induction ps arbitrary: h)
  case Nil
  then show ?case by simp
next
  case (Cons q ps)
  show ?case
  proof (cases "p \<in> set ps")
    case True
    with Cons show ?thesis by (simp add: set_grad_def)
  next
    case False
    with Cons.prems have "p = q" by simp
    with False Cons.prems(2) show ?thesis
      by (simp add: zero_grad_other set_grad_def)
  qed
qed

lemma operands_ungraded:
  assumes "ungraded h' = ungraded h"
  shows "operands h' v = operands h v"
proof -
  note f = ungraded_fields [OF assms]
  show ?thesis
  proof (cases "v < length h")
    case True
    with f(1) have "prev (h' ! v) = map prev h' ! v" by simp
    also have "\<dots> = prev (h ! v)" using True f(4) by simp
    finally show ?thesis using True f(1) by (simp add: operands_def)
  next
    case False
    with f(1) show ?thesis by (simp add: operands_def)
  qed
qed

lemma build_topo_operands:
  "(\<And>u. operands h' u = operands h u) \<Longrightarrow> build_topo h' v s = build_topo h v s"
  "(\<And>u. operands h' u = operands h u) \<Longrightarrow> build_children h' cs s = build_children h cs s"
proof (induction h v s and h cs s rule: build_topo_build_children.induct)
  case (1 h v visited topo)
  then show ?case by (cases "v \<in> visited") simp_all
next
  case (2 h s)
  then show ?case by simp
next
  case (3 h child rest s)
  then show ?case by simp
qed

lemma topo_order_ungraded:
  "ungraded h' = ungraded h \<Longrightarrow> topo_order h' rt = topo_order h rt"
proof -
  assume "ungraded h' = ungraded h"
  then have "operands h' u = operands h u" for u by (rule operands_ungraded)
  then have "build_topo h' rt ({}, []) = build_topo h rt ({}, [])"
    by (rule build_topo_operands(1))
  then show ?thesis by (simp only: topo_order_def)
qed

lemma node_eqI:
  fixes a b :: node
  assumes "a\<lparr>grad := 0\<rparr> = b\<lparr>grad := 0\<rparr>" and "grad a = grad b"
  shows "a = b"
proof -
  have "a = (a\<lparr>grad := 0\<rparr>)\<lparr>grad := grad a\<rparr>" by simp
  also have "\<dots> = (b\<lparr>grad := 0\<rparr>)\<lparr>grad := grad b\<rparr>" using assms by simp
  finally show ?thesis by simp
qed

lemma seeded_eqI:
  assumes u: "ungraded h' = ungraded h"
    and g: "\<forall>k<length h. k \<noteq> rt \<longrightarrow> grad (h' ! k) = grad (h ! k)"
  shows "set_grad h' rt 1 = set_grad h rt 1"
proof (rule nth_equalityI)
  from ungraded_fields(1) [OF u] show len: "length (set_grad h' rt 1) = length (set_grad h rt 1)"
    by (simp add: set_grad_def)
  fix k
  assume "k < length (set_grad h' rt 1)"
  with len have k: "k < length h" "k < length h'" by (simp_all add: set_grad_def)
  have e: "(h' ! k)\<lparr>grad := 0\<rparr> = (h ! k)\<lparr>grad := 0\<rparr>"
    using arg_cong [OF u, of "\<lambda>xs. xs ! k"] k by (simp add: ungraded_def)
  show "set_grad h' rt 1 ! k = set_grad h rt 1 ! k"
  proof (cases "k = rt")
    case True
    have "(h' ! k)\<lparr>grad := 1\<rparr> = ((h' ! k)\<lparr>grad := 0\<rparr>)\<lparr>grad := 1\<rparr>" by simp
    also have "\<dots> = ((h ! k)\<lparr>grad := 0\<rparr>)\<lparr>grad := 1\<rparr>" by (simp only: e)
    also have "\<dots> = (h ! k)\<lparr>grad := 1\<rparr>" by simp
    finally show ?thesis using True k by (simp add: set_grad_def)
  next
    case False
    with g k have "grad (h' ! k) = grad (h ! k)" by simp
    with e have "h' ! k = h ! k" by (rule node_eqI)
    with False k show ?thesis by (simp add: set_grad_def)
  qed
qed

lemma backward_eqI:
  assumes "ungraded h' = ungraded h"
    and "\<forall>k<length h. k \<noteq> rt \<longrightarrow> grad (h' ! k) = grad (h ! k)"
  shows "backward h' rt = backward h rt"
  using seeded_eqI [OF assms] topo_order_ungraded [OF assms(1)]
  by (simp add: backward_def Let_def)

subsection \<open>The example programs, evaluated\<close>

lemmas store_defs = leaf_def alloc_def Value_def set_backward_def add_op_def mul_op_def
  tanh_op_def exp_op_def zero_num_def one_num_def

lemmas backward_defs = backward_def topo_order_def operands_def set_grad_def add_grad_def
  zero_num_def one_num_def

lemma diamond_store:
  "diamond =
     ([\<lparr>data = Fl 3, grad = Fl 0, backward_rule = NoRule, prev = [], op = OpNone,
          label = []\<rparr>,
       \<lparr>data = Fl 6, grad = Fl 0, backward_rule = AddRule 0 0 1, prev = [0], op = OpAdd,
          label = []\<rparr>,
       \<lparr>data = Fl 36, grad = Fl 0, backward_rule = MulRule 1 1 2, prev = [1], op = OpMul,
          label = []\<rparr>,
       \<lparr>data = Fl 42, grad = Fl 0, backward_rule = AddRule 1 2 3, prev = [1, 2], op = OpAdd,
          label = []\<rparr>],
      0, 1, 2, 3)"
  by (simp add: diamond_def store_defs)

lemma diamond_fun_derivative: "(diamond_fun has_real_derivative 26) (at 3)"
  unfolding diamond_fun_def by (auto intro!: derivative_eq_intros)

lemma diamond_acyclic: "acyclic_by (\<lambda>n. n) (fst diamond)"
  by (auto simp: acyclic_by_def diamond_store nth_Cons')

lemma diamond_rules_fit: "rules_fit (fst diamond)"
  by (auto simp: rules_fit_def diamond_store nth_Cons')

lemma shared_store:
  "shared =
     [\<lparr>data = Fl 2, grad = Fl 0, backward_rule = NoRule, prev = [], op = OpNone, label = []\<rparr>,
      \<lparr>data = Fl 3, grad = Fl 0, backward_rule = NoRule, prev = [], op = OpNone, label = []\<rparr>,
      \<lparr>data = Fl 6, grad = Fl 0, backward_rule = MulRule 0 1 2, prev = [0, 1], op = OpMul,
         label = []\<rparr>,
      \<lparr>data = Fl 36, grad = Fl 0, backward_rule = MulRule 2 2 3, prev = [2], op = OpMul,
         label = []\<rparr>,
      \<lparr>data = Fl 42, grad = Fl 0, backward_rule = AddRule 2 3 4, prev = [2, 3], op = OpAdd,
         label = []\<rparr>,
      \<lparr>data = Fl 44, grad = Fl 0, backward_rule = AddRule 4 0 5, prev = [4, 0], op = OpAdd,
         label = []\<rparr>]"
  by (simp add: shared_def store_defs)

lemma shared_fun_derivative: "(shared_fun has_real_derivative 40) (at 2)"
  unfolding shared_fun_def by (auto intro!: derivative_eq_intros)

lemmas unit_defs = unit_neuron_def unit_store_def unit_forward_def neuron_call_def
  neuron_ok_def pair_layer_def pair_store_def big_input_store_def

lemma float_max_gt_1 [simp]: "\<not> float_max < 1"
  using float_max_pos by simp

lemma float_max_bounds [simp]:
  "\<not> float_max < 0" "0 \<le> float_max" "\<not> float_max < 2000" "\<not> float_max < 2049"
  by (simp_all add: float_max_def)

lemma unit_forward_store:
  "unit_forward =
     ([\<lparr>data = Fl (1 / 2), grad = Fl 0, backward_rule = NoRule, prev = [], op = OpNone,
          label = []\<rparr>,
       \<lparr>data = Fl (- 1 / 2), grad = Fl 0, backward_rule = NoRule, prev = [], op = OpNone,
          label = []\<rparr>,
       \<lparr>data = Fl 1, grad = Fl 0, backward_rule = NoRule, prev = [], op = OpNone,
          label = []\<rparr>,
       \<lparr>data = Fl (1 / 2), grad = Fl 0, backward_rule = MulRule 0 2 3, prev = [0, 2],
          op = OpMul, label = []\<rparr>,
       \<lparr>data = Fl 0, grad = Fl 0, backward_rule = AddRule 1 3 4, prev = [1, 3], op = OpAdd,
          label = []\<rparr>,
       \<lparr>data = Fl 0, grad = Fl 0, backward_rule = TanhRule 4 0 5, prev = [4], op = OpTanh,
          label = []\<rparr>],
      Inr 5)"
  by (simp add: unit_defs store_defs)


section \<open>The claims\<close>

text \<open>
  C1. The claim: on every acyclic graph whose gradients are all 0, \<^verbatim>\<open>backward(root)\<close>
  leaves in every node reachable from the root the partial derivative of the root's value
  by that node's value, each operand receiving its contribution once per consumer edge, also
  when a node is an operand at two depths.

  The code does not do this. In the program \<open>diamond\<close> the node \<open>b\<close> is an operand at
  depth 1 and at depth 2. All gradients are 0 before the call, the call returns without an
  exception, and it leaves 52 in \<^verbatim>\<open>a.grad\<close>, where the derivative of the root by \<open>a\<close>
  is 26: the closure of \<open>b\<close> has run twice. With the set \<^verbatim>\<open>c._prev\<close> iterated in the
  other order the call leaves 28.
\<close>

theorem backward_diamond_wrong_gradient:
  "(case diamond of (h, a, b, d, c) \<Rightarrow>
      map grad h = [Fl 0, Fl 0, Fl 0, Fl 0] \<and> data (h ! a) = Fl 3 \<and>
      data (h ! c) = Fl (diamond_fun 3) \<and>
      snd (backward h c) = None \<and>
      map grad (fst (backward h c)) = [Fl 52, Fl 13, Fl 1, Fl 1] \<and>
      grad (fst (backward h c) ! a) = Fl 52) \<and>
   (diamond_fun has_real_derivative 26) (at 3) \<and>
   map grad (fst (backward diamond_other_order 3)) = [Fl 28, Fl 13, Fl 1, Fl 1]"
proof -
  have "case diamond of (h, a, b, d, c) \<Rightarrow>
      map grad h = [Fl 0, Fl 0, Fl 0, Fl 0] \<and> data (h ! a) = Fl 3 \<and>
      data (h ! c) = Fl (diamond_fun 3) \<and>
      snd (backward h c) = None \<and>
      map grad (fst (backward h c)) = [Fl 52, Fl 13, Fl 1, Fl 1] \<and>
      grad (fst (backward h c) ! a) = Fl 52"
    by (simp add: diamond_store diamond_fun_def backward_defs)
  moreover have "map grad (fst (backward diamond_other_order 3)) = [Fl 28, Fl 13, Fl 1, Fl 1]"
    by (simp add: diamond_store diamond_other_order_def backward_defs)
  ultimately show ?thesis
    using diamond_fun_derivative by simp
qed

text \<open>
  C2. The claim: the ordering phase of \<^verbatim>\<open>backward\<close> appends every node reachable from
  the root exactly once, after all of its operands, so that the sequence is a topological
  order without repetition.

  The code does not do this. \<^verbatim>\<open>topo.append(v)\<close> runs on every call of
  \<^verbatim>\<open>build_topo\<close>, also for a node already visited. In the program \<open>diamond\<close>, whose
  operands all precede their consumers, the node \<open>b\<close> is appended twice; with
  \<^verbatim>\<open>c._prev\<close> iterated in the other order the second \<open>b\<close> stands after its consumer
  \<open>d\<close>.
\<close>

theorem topo_order_diamond_repeats:
  "(case diamond of (h, a, b, d, c) \<Rightarrow>
      map prev h = [[], [a], [b], [b, d]] \<and>
      topo_order h c = [a, b, b, d, c] \<and>
      \<not> distinct (topo_order h c)) \<and>
   topo_order diamond_other_order 3 = [0, 1, 2, 1, 3]"
proof -
  have "case diamond of (h, a, b, d, c) \<Rightarrow>
      map prev h = [[], [a], [b], [b, d]] \<and>
      topo_order h c = [a, b, b, d, c] \<and>
      \<not> distinct (topo_order h c)"
    by (simp add: diamond_store backward_defs)
  moreover have "topo_order diamond_other_order 3 = [0, 1, 2, 1, 3]"
    by (simp add: diamond_store diamond_other_order_def backward_defs)
  ultimately show ?thesis by simp
qed

text \<open>
  C4. The claim: for \<^verbatim>\<open>a = Value(3.0); b = a + a\<close> with all gradients 0,
  \<^verbatim>\<open>backward(b)\<close> leaves 2 in \<^verbatim>\<open>a.grad\<close>, and in general a node with more than one
  consumer receives the sum of the contributions of all its consumers.

  The example holds. The general sentence does not hold on the code. In the program
  \<open>shared\<close>, an acyclic store with all gradients 0, the leaf \<open>x\<close> has the two consumers
  \<open>b = x * 3\<close> and \<open>r = c + x\<close>. The call \<^verbatim>\<open>backward(r)\<close> returns without an exception
  and leaves 13 in \<^verbatim>\<open>b.grad\<close> and 1 in \<^verbatim>\<open>r.grad\<close>, so that the contributions of the
  two consumers are 39 and 1 and their sum is 40, the derivative of the root by \<open>x\<close>; it
  leaves 79 in \<^verbatim>\<open>x.grad\<close>, because \<open>b\<close> stands twice in \<^verbatim>\<open>topo\<close> and its closure has
  added its 39 twice. In whatever order the three sets of two elements are iterated, the
  call leaves 79 or 43, never 40.
\<close>

theorem backward_shared_wrong_sum:
  "(case fan_out of (h, a, b) \<Rightarrow>
      data (h ! a) = Fl 3 \<and> map grad h = [Fl 0, Fl 0] \<and>
      grad (fst (backward h b) ! a) = Fl 2) \<and>
   map prev shared = [[], [], [0, 1], [2], [2, 3], [4, 0]] \<and>
   map grad shared = [Fl 0, Fl 0, Fl 0, Fl 0, Fl 0, Fl 0] \<and>
   data (shared ! 0) = Fl 2 \<and> data (shared ! 5) = Fl (shared_fun 2) \<and>
   (shared_fun has_real_derivative 40) (at 2) \<and>
   topo_order shared 5 = [0, 1, 2, 2, 3, 4, 0, 5] \<and>
   snd (backward shared 5) = None \<and>
   map grad (fst (backward shared 5)) = [Fl 79, Fl 52, Fl 13, Fl 1, Fl 1, Fl 1] \<and>
   map (\<lambda>vs. grad (fst (backward (reordered vs shared) 5) ! 0))
     [[], [2], [4], [5], [2, 4], [2, 5], [4, 5], [2, 4, 5]] =
     [Fl 79, Fl 79, Fl 43, Fl 79, Fl 43, Fl 79, Fl 43, Fl 43]"
proof -
  have "case fan_out of (h, a, b) \<Rightarrow>
      data (h ! a) = Fl 3 \<and> map grad h = [Fl 0, Fl 0] \<and>
      grad (fst (backward h b) ! a) = Fl 2"
    by (simp add: fan_out_def store_defs backward_defs)
  moreover have "map prev shared = [[], [], [0, 1], [2], [2, 3], [4, 0]]"
    and "map grad shared = [Fl 0, Fl 0, Fl 0, Fl 0, Fl 0, Fl 0]"
    and "data (shared ! 0) = Fl 2" and "data (shared ! 5) = Fl (shared_fun 2)"
    by (simp_all add: shared_store shared_fun_def)
  moreover have "topo_order shared 5 = [0, 1, 2, 2, 3, 4, 0, 5]"
    by (simp add: shared_store backward_defs)
  moreover have "snd (backward shared 5) = None"
    by (simp add: shared_store backward_defs)
  moreover have "map grad (fst (backward shared 5)) = [Fl 79, Fl 52, Fl 13, Fl 1, Fl 1, Fl 1]"
    by (simp add: shared_store backward_defs)
  moreover have "map (\<lambda>vs. grad (fst (backward (reordered vs shared) 5) ! 0))
     [[], [2], [4], [5], [2, 4], [2, 5], [4, 5], [2, 4, 5]] =
     [Fl 79, Fl 79, Fl 43, Fl 79, Fl 43, Fl 79, Fl 43, Fl 43]"
    by (simp add: shared_store backward_defs)
  ultimately show ?thesis
    using shared_fun_derivative by simp
qed

text \<open>
  C6. \<^verbatim>\<open>__pow__\<close> with a \<^verbatim>\<open>Value\<close> as exponent fails, by the \<^verbatim>\<open>assert\<close> that the
  exponent is a number (the error the specification calls \<open>InvalidExponent\<close>), and the
  store after the failure is the store before it: no node has been changed or made. The
  same holds for an exponent that is a complex number.
\<close>

theorem pow_op_node_exponent_fails:
  "pow_op h a (Ref p) = (h, Inl AssertionError) \<and>
   pow_op h a (Num (Cx z)) = (h, Inl AssertionError)"
  by simp




text \<open>
  C10. No operation changes an existing node except in its gradient. Every forward
  operation, the derived ones included, returns a store that extends the one it was given:
  all the nodes that existed are the same records (value, gradient, operands, tag, label and
  closure), and the result is a new node; where \<^verbatim>\<open>__pow__\<close>, \<^verbatim>\<open>__truediv__\<close>,
  \<^verbatim>\<open>exp\<close> or \<^verbatim>\<open>tanh\<close> raises, the store is the one it was given. \<^verbatim>\<open>backward\<close>, whether it returns or
  raises, leaves the number of nodes and every field other than \<^verbatim>\<open>grad\<close> as they were.
\<close>

theorem forward_extends_backward_keeps:
  "(case add_op h a x of (h', out) \<Rightarrow> extends h h' out) \<and>
   (case mul_op h a x of (h', out) \<Rightarrow> extends h h' out) \<and>
   (case neg_op h a of (h', out) \<Rightarrow> extends h h' out) \<and>
   (case sub_op h a x of (h', out) \<Rightarrow> extends h h' out) \<and>
   (case radd_op h a v of (h', out) \<Rightarrow> extends h h' out) \<and>
   (case rmul_op h a v of (h', out) \<Rightarrow> extends h h' out) \<and>
   (case exp_op h a of (h', Inl e) \<Rightarrow> h' = h | (h', Inr out) \<Rightarrow> extends h h' out) \<and>
   (case tanh_op h a of (h', Inl e) \<Rightarrow> h' = h | (h', Inr out) \<Rightarrow> extends h h' out) \<and>
   (case pow_op h a x of (h', Inl e) \<Rightarrow> h' = h | (h', Inr out) \<Rightarrow> extends h h' out) \<and>
   (case truediv_op h a x of (h', Inl e) \<Rightarrow> h' = h | (h', Inr out) \<Rightarrow> extends h h' out) \<and>
   (case backward h rt of (h', e) \<Rightarrow>
      length h' = length h \<and> map data h' = map data h \<and> map prev h' = map prev h \<and>
      map op h' = map op h \<and> map label h' = map label h \<and>
      map backward_rule h' = map backward_rule h)"
proof -
  have "case add_op h a x of (h', out) \<Rightarrow> extends h h' out"
    by (auto intro: add_op_ext)
  moreover have "case mul_op h a x of (h', out) \<Rightarrow> extends h h' out"
    by (auto intro: mul_op_ext)
  moreover have "case neg_op h a of (h', out) \<Rightarrow> extends h h' out"
    by (auto intro: neg_op_ext)
  moreover have "case sub_op h a x of (h', out) \<Rightarrow> extends h h' out"
    by (auto intro: sub_op_ext)
  moreover have "case radd_op h a v of (h', out) \<Rightarrow> extends h h' out"
    by (auto simp: radd_op_def intro: add_op_ext)
  moreover have "case rmul_op h a v of (h', out) \<Rightarrow> extends h h' out"
    by (auto simp: rmul_op_def intro: mul_op_ext)
  moreover have "case exp_op h a of (h', Inl e) \<Rightarrow> h' = h | (h', Inr out) \<Rightarrow> extends h h' out"
    using exp_op_ext [of h a] by (auto split: prod.splits sum.splits)
  moreover have "case tanh_op h a of (h', Inl e) \<Rightarrow> h' = h | (h', Inr out) \<Rightarrow> extends h h' out"
    using tanh_op_ext [of h a] by (auto split: prod.splits sum.splits)
  moreover have "case pow_op h a x of (h', Inl e) \<Rightarrow> h' = h | (h', Inr out) \<Rightarrow> extends h h' out"
    using pow_op_ext [of h a x] by (auto split: prod.splits sum.splits)
  moreover have "case truediv_op h a x of (h', Inl e) \<Rightarrow> h' = h | (h', Inr out) \<Rightarrow> extends h h' out"
    using truediv_op_ext [of h a x] by (auto split: prod.splits sum.splits)
  moreover have "case backward h rt of (h', e) \<Rightarrow>
      length h' = length h \<and> map data h' = map data h \<and> map prev h' = map prev h \<and>
      map op h' = map op h \<and> map label h' = map label h \<and>
      map backward_rule h' = map backward_rule h"
    using ungraded_fields [OF ungraded_backward [of h rt]] by (simp add: case_prod_unfold)
  ultimately show ?thesis by blast
qed

text \<open>
  C5. \<^verbatim>\<open>backward(root)\<close> first builds the order, on the store as it was given, then
  assigns 1 to the gradient of the root, whatever it held, and then runs the closures. It
  resets no other gradient: for every node other than the root, the gradient after the call
  is the gradient before the call plus the contributions addressed to the node during the
  pass. In an acyclic store no contribution is addressed to the root, whose gradient after
  the call is exactly 1.
\<close>

theorem backward_seeds_root_and_accumulates:
  "backward h rt = run_rules (rev (topo_order h rt)) (set_grad h rt 1) \<and>
   (rt < length h \<longrightarrow> grad (set_grad h rt 1 ! rt) = 1) \<and>
   (n < length h \<and> n \<noteq> rt \<longrightarrow>
      grad (fst (backward h rt) ! n) = grad (h ! n) + received n (backward_contribs h rt)) \<and>
   (acyclic_by rk h \<and> rules_fit h \<and> rt < length h \<longrightarrow>
      grad (fst (backward h rt) ! rt) = 1)"
proof -
  have "backward h rt = run_rules (rev (topo_order h rt)) (set_grad h rt 1)"
    by (simp add: backward_def Let_def)
  moreover have "rt < length h \<longrightarrow> grad (set_grad h rt 1 ! rt) = 1"
    by (simp add: set_grad_def)
  moreover have "n < length h \<and> n \<noteq> rt \<longrightarrow>
      grad (fst (backward h rt) ! n) = grad (h ! n) + received n (backward_contribs h rt)"
    using backward_grad [of n h rt] by simp
  moreover have "acyclic_by rk h \<and> rules_fit h \<and> rt < length h \<longrightarrow>
      grad (fst (backward h rt) ! rt) = 1"
    using backward_grad [of rt h rt] root_receives_nothing [of rk h rt] by simp
  ultimately show ?thesis by blast
qed


text \<open>
  Witness for C5: the program \<open>diamond\<close>, an acyclic store, with its root \<open>c\<close> and
  the leaf \<open>a\<close>.
\<close>

theorem backward_seeds_root_and_accumulates_witness:
  "(3::nat) < length (fst diamond) \<and> (0::nat) < length (fst diamond) \<and> (0::nat) \<noteq> 3 \<and>
   acyclic_by (\<lambda>n. n) (fst diamond) \<and> rules_fit (fst diamond) \<and>
   grad (set_grad (fst diamond) 3 1 ! 3) = 1 \<and>
   grad (fst (backward (fst diamond) 3) ! 0) =
     grad (fst diamond ! 0) + received 0 (backward_contribs (fst diamond) 3) \<and>
   received 0 (backward_contribs (fst diamond) 3) = Fl 52 \<and>
   grad (fst (backward (fst diamond) 3) ! 3) = 1"
proof -
  have l: "(3::nat) < length (fst diamond)" "(0::nat) < length (fst diamond)"
    by (simp_all add: diamond_store)
  have c: "received 0 (backward_contribs (fst diamond) 3) = Fl 52"
    by (simp add: diamond_store backward_contribs_def backward_defs)
  have n: "(0::nat) \<noteq> 3" by simp
  from backward_seeds_root_and_accumulates [of "fst diamond" 3 0 "\<lambda>n. n"]
    l c n diamond_acyclic diamond_rules_fit
  show ?thesis by blast
qed







text \<open>
  C3, as stated: after one backward pass from a root, \<^verbatim>\<open>zero_grad\<close> leaves every
  parameter's gradient 0 and a second \<^verbatim>\<open>backward\<close> from the same root reproduces the
  gradients of the first. The second half fails. In the program of \<open>unit_forward\<close> the
  first pass leaves 1 in the gradient of the weight; \<^verbatim>\<open>zero_grad\<close> resets the two
  parameters and leaves the gradients of the product, the sum and the output as they are;
  the second pass adds to those and leaves 3 in the gradient of the weight.
\<close>

theorem zero_grad_backward_not_reproduced:
  "snd unit_forward = Inr unit_out \<and>
   map grad (fst unit_forward) = [Fl 0, Fl 0, Fl 0, Fl 0, Fl 0, Fl 0] \<and>
   map grad unit_first_pass = [Fl 1, Fl 1, Fl (1 / 2), Fl 1, Fl 1, Fl 1] \<and>
   map grad unit_reset = [Fl 0, Fl 0, Fl (1 / 2), Fl 1, Fl 1, Fl 1] \<and>
   map grad unit_second_pass = [Fl 3, Fl 2, Fl 2, Fl 3, Fl 2, Fl 1] \<and>
   grad (unit_second_pass ! 0) \<noteq> grad (unit_first_pass ! 0)"
  by (simp add: unit_second_pass_def unit_reset_def unit_first_pass_def unit_forward_store
      unit_out_def neuron_zero_grad_def neuron_parameters_def unit_neuron_def backward_defs)

text \<open>
  C3, amended. For the parameters of a neuron, a layer or an MLP, all in the store, after
  one backward pass from a root: \<^verbatim>\<open>zero_grad\<close> leaves the gradient of every parameter
  exactly 0 and changes nothing else, no other node and no other field. A second
  \<^verbatim>\<open>backward\<close> from the same root gives the same store and outcome as the first
  whenever, after the reset, every node other than the root holds the gradient it held
  before the first pass; \<^verbatim>\<open>zero_grad\<close> brings this about for the parameters only.
\<close>

theorem zero_grad_then_backward_again:
  assumes "ps = neuron_parameters n \<or> ps = layer_parameters l \<or> ps = mlp_parameters m"
    and "\<forall>p\<in>set ps. p < length h"
  shows "(\<forall>p\<in>set ps. grad (zero_grad (fst (backward h rt)) ps ! p) = 0) \<and>
         (\<forall>k. k \<notin> set ps \<longrightarrow>
            zero_grad (fst (backward h rt)) ps ! k = fst (backward h rt) ! k) \<and>
         ungraded (zero_grad (fst (backward h rt)) ps) = ungraded h \<and>
         ((\<forall>k<length h. k \<noteq> rt \<longrightarrow>
              grad (zero_grad (fst (backward h rt)) ps ! k) = grad (h ! k)) \<longrightarrow>
            backward (zero_grad (fst (backward h rt)) ps) rt = backward h rt)"
proof -
  let ?h1 = "fst (backward h rt)"
  have len: "length ?h1 = length h"
    by (rule ungraded_fields(1)) simp
  have "\<forall>p\<in>set ps. grad (zero_grad ?h1 ps ! p) = 0"
    using assms(2) len by (simp add: zero_grad_param)
  moreover have "\<forall>k. k \<notin> set ps \<longrightarrow> zero_grad ?h1 ps ! k = ?h1 ! k"
    by (simp add: zero_grad_other)
  moreover have u: "ungraded (zero_grad ?h1 ps) = ungraded h" by simp
  moreover have "(\<forall>k<length h. k \<noteq> rt \<longrightarrow> grad (zero_grad ?h1 ps ! k) = grad (h ! k)) \<longrightarrow>
            backward (zero_grad ?h1 ps) rt = backward h rt"
    using backward_eqI [OF u] by blast
  ultimately show ?thesis by blast
qed

text \<open>
  Witness for C3: the program \<open>param_product\<close>, where every node below the root is a
  parameter.
\<close>

theorem zero_grad_then_backward_again_witness:
  "neuron_parameters unit_neuron = [0, 1] \<and>
   (0::nat) < length (fst param_product) \<and> (1::nat) < length (fst param_product) \<and>
   map grad (fst param_product) = [Fl 0, Fl 0, Fl 0] \<and>
   map grad (fst (backward (fst param_product) 2)) = [Fl (- 1 / 2), Fl (1 / 2), Fl 1] \<and>
   map grad (zero_grad (fst (backward (fst param_product) 2)) [0, 1]) = [Fl 0, Fl 0, Fl 1] \<and>
   backward (zero_grad (fst (backward (fst param_product) 2)) [0, 1]) 2 =
     backward (fst param_product) 2"
proof -
  let ?h = "fst param_product"
  have ps: "[0, 1] = neuron_parameters unit_neuron \<or> [0, 1] = layer_parameters l0 \<or>
      [0, 1] = mlp_parameters m0" for l0 m0
    by (simp add: neuron_parameters_def unit_neuron_def)
  have st: "?h =
     [\<lparr>data = Fl (1 / 2), grad = Fl 0, backward_rule = NoRule, prev = [], op = OpNone,
         label = []\<rparr>,
      \<lparr>data = Fl (- 1 / 2), grad = Fl 0, backward_rule = NoRule, prev = [], op = OpNone,
         label = []\<rparr>,
      \<lparr>data = Fl (- 1 / 4), grad = Fl 0, backward_rule = MulRule 0 1 2, prev = [0, 1],
         op = OpMul, label = []\<rparr>]"
    by (simp add: param_product_def unit_store_def store_defs)
  have v: "\<forall>p\<in>set [0, 1]. p < length ?h" by (simp add: st)
  have g1: "map grad (fst (backward ?h 2)) = [Fl (- 1 / 2), Fl (1 / 2), Fl 1]"
    by (simp add: st backward_defs)
  have g2: "map grad (zero_grad (fst (backward ?h 2)) [0, 1]) = [Fl 0, Fl 0, Fl 1]"
    by (simp add: st backward_defs)
  have pre: "\<forall>k<length ?h. k \<noteq> 2 \<longrightarrow>
      grad (zero_grad (fst (backward ?h 2)) [0, 1] ! k) = grad (?h ! k)"
  proof (intro allI impI)
    fix k assume "k < length ?h" and "k \<noteq> 2"
    then have "k = 0 \<or> k = 1" by (auto simp: st)
    then show "grad (zero_grad (fst (backward ?h 2)) [0, 1] ! k) = grad (?h ! k)"
      by (auto simp: st backward_defs)
  qed
  from zero_grad_then_backward_again [OF ps v, of 2] pre
  have "backward (zero_grad (fst (backward ?h 2)) [0, 1]) 2 = backward ?h 2"
    by blast
  with g1 g2 st show ?thesis
    by (simp add: neuron_parameters_def unit_neuron_def)
qed



end
